theory Spec2Isabelle
  imports Complex_Main "HOL-Library.List_Lexorder"
begin

section \<open>Python strings\<close>

text \<open>
  A Python \<open>str\<close> is a sequence of Unicode code points, and the invoices use the rupee
  sign U+20B9, so text is modelled as a list of code points. Character classes and case
  folding are given on the ASCII range together with Python's list of whitespace
  characters; that is the alphabet of the invoices the scripts read.
\<close>

type_synonym uchar = int
type_synonym ustr = "int list"

definition u :: "string \<Rightarrow> ustr" where
  "u s = map of_char s"

definition rupee :: uchar where
  "rupee = 8377"

definition nl :: uchar where
  "nl = 10"

definition is_digit :: "uchar \<Rightarrow> bool" where
  "is_digit c = (48 \<le> c \<and> c \<le> 57)"

definition is_space :: "uchar \<Rightarrow> bool" where
  "is_space c = ((9 \<le> c \<and> c \<le> 13) \<or> (28 \<le> c \<and> c \<le> 32) \<or> c = 133 \<or> c = 160
     \<or> c = 5760 \<or> (8192 \<le> c \<and> c \<le> 8202) \<or> c = 8232 \<or> c = 8233 \<or> c = 8239
     \<or> c = 8287 \<or> c = 12288)"

definition is_upper :: "uchar \<Rightarrow> bool" where
  "is_upper c = (65 \<le> c \<and> c \<le> 90)"

definition is_lower :: "uchar \<Rightarrow> bool" where
  "is_lower c = (97 \<le> c \<and> c \<le> 122)"

definition is_word :: "uchar \<Rightarrow> bool" where
  "is_word c = (is_digit c \<or> is_upper c \<or> is_lower c \<or> c = 95)"

definition lower_char :: "uchar \<Rightarrow> uchar" where
  "lower_char c = (if is_upper c then c + 32 else c)"

definition upper_char :: "uchar \<Rightarrow> uchar" where
  "upper_char c = (if is_lower c then c - 32 else c)"

text \<open>\<open>s.lower()\<close>\<close>

definition lower :: "ustr \<Rightarrow> ustr" where
  "lower s = map lower_char s"

text \<open>\<open>s.strip()\<close>\<close>

definition strip :: "ustr \<Rightarrow> ustr" where
  "strip s = rev (dropWhile is_space (rev (dropWhile is_space s)))"

text \<open>\<open>needle in hay\<close>\<close>

fun py_in :: "ustr \<Rightarrow> ustr \<Rightarrow> bool" where
  "py_in needle [] = (needle = [])"
| "py_in needle (x # xs) = (take (length needle) (x # xs) = needle \<or> py_in needle xs)"

text \<open>\<open>s.split(c)\<close> for a one-character separator: never an empty list.\<close>

fun split_on :: "uchar \<Rightarrow> ustr \<Rightarrow> ustr list" where
  "split_on c [] = [[]]"
| "split_on c (x # xs) =
     (if x = c then [] # split_on c xs
      else (case split_on c xs of [] \<Rightarrow> [[x]] | l # ls \<Rightarrow> (x # l) # ls))"

text \<open>\<open>s.replace(',', '')\<close>\<close>

definition drop_commas :: "ustr \<Rightarrow> ustr" where
  "drop_commas s = filter (\<lambda>c. c \<noteq> 44) s"

section \<open>Regular expressions of the \<open>re\<close> module\<close>

text \<open>
  The patterns of the scripts use literals, character sets, \<open>.\<close>, \<open>^\<close>, concatenation,
  alternation, capturing groups, and greedy or lazy repetition of one-character
  matchers. \<open>re\<close> is a backtracking matcher: the match it reports is the first one in the
  order in which alternatives are tried. The model returns every way a pattern can match
  at a position, in that order, so the head of the list is the match \<open>re\<close> reports.
\<close>

datatype citem = Ch uchar | Rng uchar uchar | ClsD | ClsS | ClsW

datatype atom = Lit uchar | Set "citem list" | NSet "citem list" | Dot

datatype rx =
    At atom
  | Rep bool nat "nat option" atom
  | Bol
  | Seq rx rx
  | Alt rx rx
  | Grp nat rx

text \<open>
  A matcher state: the character before the position (\<open>None\<close> at the start of the
  string), the text still to read, and the groups captured so far (newest first).
\<close>

type_synonym mstate = "uchar option \<times> ustr \<times> (nat \<times> ustr) list"

text \<open>The text a state has still to read.\<close>

definition rest_of :: "mstate \<Rightarrow> ustr" where
  "rest_of st = fst (snd st)"

fun in_item :: "bool \<Rightarrow> citem \<Rightarrow> uchar \<Rightarrow> bool" where
  "in_item ic (Ch c) x = (x = c \<or> (ic \<and> lower_char x = lower_char c))"
| "in_item ic (Rng a b) x =
     ((a \<le> x \<and> x \<le> b) \<or>
      (ic \<and> ((a \<le> lower_char x \<and> lower_char x \<le> b) \<or> (a \<le> upper_char x \<and> upper_char x \<le> b))))"
| "in_item ic ClsD x = is_digit x"
| "in_item ic ClsS x = is_space x"
| "in_item ic ClsW x = is_word x"

fun atom_ok :: "bool \<Rightarrow> atom \<Rightarrow> uchar \<Rightarrow> bool" where
  "atom_ok ic (Lit c) x = (x = c \<or> (ic \<and> lower_char x = lower_char c))"
| "atom_ok ic (Set its) x = (\<exists>i \<in> set its. in_item ic i x)"
| "atom_ok ic (NSet its) x = (\<not> (\<exists>i \<in> set its. in_item ic i x))"
| "atom_ok ic Dot x = (x \<noteq> nl)"

text \<open>The state after reading \<open>n\<close> characters.\<close>

fun advance :: "nat \<Rightarrow> mstate \<Rightarrow> mstate" where
  "advance n (p, s, caps) =
     (if n = 0 \<or> s = [] then (p, s, caps)
      else (Some (last (take n s)), drop n s, caps))"

text \<open>
  Repetition of a one-character matcher between \<open>lo\<close> and \<open>hi\<close> times: with \<open>k\<close> the length
  of the longest run available, a greedy repetition tries \<open>k, k - 1, \<dots>, lo\<close> characters
  and a lazy one \<open>lo, lo + 1, \<dots>, k\<close>.
\<close>

definition rep_counts :: "bool \<Rightarrow> nat \<Rightarrow> nat option \<Rightarrow> nat \<Rightarrow> nat list" where
  "rep_counts greedy lo hi run =
     (let k = (case hi of None \<Rightarrow> run | Some h \<Rightarrow> min h run);
          up = [lo ..< Suc k]
      in if greedy then rev up else up)"

fun rmatch :: "bool \<Rightarrow> bool \<Rightarrow> rx \<Rightarrow> mstate \<Rightarrow> mstate list" where
  "rmatch ic ml (At a) (p, s, caps) =
     (case s of [] \<Rightarrow> [] | x # xs \<Rightarrow> if atom_ok ic a x then [(Some x, xs, caps)] else [])"
| "rmatch ic ml (Rep greedy lo hi a) (p, s, caps) =
     map (\<lambda>n. advance n (p, s, caps))
       (rep_counts greedy lo hi (length (takeWhile (atom_ok ic a) s)))"
| "rmatch ic ml Bol (p, s, caps) =
     (if p = None \<or> (ml \<and> p = Some nl) then [(p, s, caps)] else [])"
| "rmatch ic ml (Seq a b) st = concat (map (rmatch ic ml b) (rmatch ic ml a st))"
| "rmatch ic ml (Alt a b) st = rmatch ic ml a st @ rmatch ic ml b st"
| "rmatch ic ml (Grp n r) (p, s, caps) =
     map (\<lambda>(p', s', caps'). (p', s', (n, take (length s - length s') s) # caps'))
       (rmatch ic ml r (p, s, caps))"

text \<open>Concatenation of a list of patterns, and a literal word.\<close>

fun seqs :: "rx list \<Rightarrow> rx" where
  "seqs [] = Rep True 0 (Some 0) Dot"
| "seqs [r] = r"
| "seqs (r # rs) = Seq r (seqs rs)"

definition word :: "string \<Rightarrow> rx" where
  "word s = seqs (map (\<lambda>c. At (Lit (of_char c))) s)"

fun alts :: "rx list \<Rightarrow> rx" where
  "alts [] = At (Set [])"
| "alts [r] = r"
| "alts (r # rs) = Alt r (alts rs)"

text \<open>A match object: \<open>group n\<close>, and the text after the match.\<close>

record rmatch_obj =
  groups :: "(nat \<times> ustr) list"
  after :: ustr
  after_prev :: "uchar option"

definition group :: "rmatch_obj \<Rightarrow> nat \<Rightarrow> ustr" where
  "group m n = (case map_of (groups m) n of None \<Rightarrow> [] | Some g \<Rightarrow> g)"

definition match_at :: "bool \<Rightarrow> bool \<Rightarrow> rx \<Rightarrow> uchar option \<Rightarrow> ustr \<Rightarrow> rmatch_obj option" where
  "match_at ic ml r p s =
     (case rmatch ic ml r (p, s, []) of
        [] \<Rightarrow> None
      | (p', s', caps) # _ \<Rightarrow> Some \<lparr>groups = caps, after = s', after_prev = p'\<rparr>)"

text \<open>\<open>re.match\<close>: at the start of the string only.\<close>

definition re_match :: "bool \<Rightarrow> bool \<Rightarrow> rx \<Rightarrow> ustr \<Rightarrow> rmatch_obj option" where
  "re_match ic ml r s = match_at ic ml r None s"

text \<open>\<open>re.search\<close>: the leftmost position at which the pattern matches.\<close>

fun search_from :: "bool \<Rightarrow> bool \<Rightarrow> rx \<Rightarrow> uchar option \<Rightarrow> ustr \<Rightarrow> rmatch_obj option" where
  "search_from ic ml r p [] = match_at ic ml r p []"
| "search_from ic ml r p (x # xs) =
     (case match_at ic ml r p (x # xs) of
        Some m \<Rightarrow> Some m
      | None \<Rightarrow> search_from ic ml r (Some x) xs)"

definition re_search :: "bool \<Rightarrow> bool \<Rightarrow> rx \<Rightarrow> ustr \<Rightarrow> rmatch_obj option" where
  "re_search ic ml r s = search_from ic ml r None s"


text \<open>
  \<open>re.sub(pattern, repl, s)\<close> with a constant replacement: matches are replaced from left
  to right; after an empty match one character is copied and the scan goes on.
\<close>

function re_sub :: "bool \<Rightarrow> bool \<Rightarrow> rx \<Rightarrow> ustr \<Rightarrow> uchar option \<Rightarrow> ustr \<Rightarrow> ustr" where
  "re_sub ic ml r repl p s =
     (case match_at ic ml r p s of
        Some m \<Rightarrow>
          (if length (after m) < length s then repl @ re_sub ic ml r repl (after_prev m) (after m)
           else (case s of [] \<Rightarrow> repl | x # xs \<Rightarrow> repl @ x # re_sub ic ml r repl (Some x) xs))
      | None \<Rightarrow> (case s of [] \<Rightarrow> [] | x # xs \<Rightarrow> x # re_sub ic ml r repl (Some x) xs))"
  by pat_completeness auto
termination
  by (relation "measure (\<lambda>(ic, ml, r, repl, p, s). length s)") auto

text \<open>The first element of a list of attempts that succeeds.\<close>

fun first_some :: "('a \<Rightarrow> 'b option) \<Rightarrow> 'a list \<Rightarrow> 'b option" where
  "first_some f [] = None"
| "first_some f (x # xs) = (case f x of Some y \<Rightarrow> Some y | None \<Rightarrow> first_some f xs)"

subsection \<open>Pieces shared by the patterns\<close>

definition ws0 :: rx where
  "ws0 = Rep True 0 None (Set [ClsS])"

definition ws1 :: rx where
  "ws1 = Rep True 1 None (Set [ClsS])"

definition ds1 :: rx where
  "ds1 = Rep True 1 None (Set [ClsD])"

text \<open>\<open>[\d,]+\.?\d*\<close>\<close>

definition amount_rx :: rx where
  "amount_rx = seqs [Rep True 1 None (Set [ClsD, Ch 44]), Rep True 0 (Some 1) (Lit 46),
     Rep True 0 None (Set [ClsD])]"

section \<open>Numbers and dates of the standard library\<close>

text \<open>\<open>int(s)\<close> on a string of decimal digits, with surrounding whitespace ignored.\<close>

definition py_int :: "ustr \<Rightarrow> int" where
  "py_int s = foldl (\<lambda>a c. 10 * a + (c - 48)) 0 (strip s)"

text \<open>
  \<open>float(s)\<close> on the strings the total patterns can capture once the commas are removed:
  digits with at most one point and at least one digit; anything else raises
  \<open>ValueError\<close> (\<open>None\<close>). The value is the exact decimal; rounding to binary64 is not
  part of the model.
\<close>

definition py_float :: "ustr \<Rightarrow> rat option" where
  "py_float s =
     (let ip = takeWhile is_digit s; r = dropWhile is_digit s
      in case r of
           [] \<Rightarrow> if ip = [] then None else Some (of_int (py_int ip))
         | c # fr \<Rightarrow>
             if c = 46 \<and> list_all is_digit fr \<and> (ip \<noteq> [] \<or> fr \<noteq> [])
             then Some (of_int (py_int ip) + of_int (py_int fr) / 10 ^ length fr)
             else None)"

record datetime =
  year :: int
  month :: int
  day :: int
  hour :: int
  minute :: int

definition is_leap :: "int \<Rightarrow> bool" where
  "is_leap y = (y mod 4 = 0 \<and> (y mod 100 \<noteq> 0 \<or> y mod 400 = 0))"

definition days_in_month :: "int \<Rightarrow> int \<Rightarrow> int" where
  "days_in_month y m =
     (if m = 2 then (if is_leap y then 29 else 28)
      else if m = 4 \<or> m = 6 \<or> m = 9 \<or> m = 11 then 30 else 31)"

definition full_months :: "string list" where
  "full_months = [''january'', ''february'', ''march'', ''april'', ''may'', ''june'', ''july'',
     ''august'', ''september'', ''october'', ''november'', ''december'']"

definition abbr_months :: "string list" where
  "abbr_months = [''jan'', ''feb'', ''mar'', ''apr'', ''may'', ''jun'', ''jul'', ''aug'', ''sep'',
     ''oct'', ''nov'', ''dec'']"

text \<open>\<open>names.index(s) + 1\<close>, or 0 when \<open>s\<close> is not in the list.\<close>

fun month_index :: "string list \<Rightarrow> ustr \<Rightarrow> int" where
  "month_index [] s = 0"
| "month_index (n # ns) s =
     (if u n = s then 1
      else (let i = month_index ns s in if i = 0 then 0 else i + 1))"

text \<open>
  \<open>datetime.strptime(s, "%d %B %Y %I:%M %p")\<close> and the same with \<open>%b\<close>, in the C locale.
  The standard library turns the format into a pattern, matched ignoring case at the
  start of \<open>s\<close>, and rejects \<open>s\<close> when text remains after the match or the date does not
  exist. The month names are tried longest first.
\<close>

definition strptime_rx :: "bool \<Rightarrow> rx" where
  "strptime_rx full =
     seqs [
       Grp 1 (alts [Seq (At (Lit 51)) (At (Set [Rng 48 49])),
                    Seq (At (Set [Rng 49 50])) (At (Set [ClsD])),
                    Seq (At (Lit 48)) (At (Set [Rng 49 57])),
                    At (Set [Rng 49 57]),
                    Seq (At (Lit 32)) (At (Set [Rng 49 57]))]),
       ws1,
       Grp 2 (alts (map word
         (if full then [''september'', ''february'', ''november'', ''december'', ''january'',
                        ''october'', ''august'', ''march'', ''april'', ''june'', ''july'', ''may'']
          else abbr_months))),
       ws1,
       Grp 3 (Rep True 4 (Some 4) (Set [ClsD])),
       ws1,
       Grp 4 (alts [Seq (At (Lit 49)) (At (Set [Rng 48 50])),
                    Seq (At (Lit 48)) (At (Set [Rng 49 57])),
                    At (Set [Rng 49 57])]),
       At (Lit 58),
       Grp 5 (Alt (Seq (At (Set [Rng 48 53])) (At (Set [ClsD]))) (At (Set [ClsD]))),
       ws1,
       Grp 6 (Alt (word ''am'') (word ''pm''))]"

definition strptime :: "bool \<Rightarrow> ustr \<Rightarrow> datetime option" where
  "strptime full s =
     (case re_match True False (strptime_rx full) s of
        None \<Rightarrow> None
      | Some m \<Rightarrow>
          if after m \<noteq> [] then None
          else
            (let y = py_int (group m 3);
                 mo = month_index (if full then full_months else abbr_months) (lower (group m 2));
                 d = py_int (group m 1);
                 h = py_int (group m 4);
                 h' = (if lower (group m 6) = u ''am'' then (if h = 12 then 0 else h)
                       else (if h = 12 then h else h + 12))
             in if 1 \<le> y \<and> 1 \<le> mo \<and> 1 \<le> d \<and> d \<le> days_in_month y mo
                then Some \<lparr>year = y, month = mo, day = d, hour = h', minute = py_int (group m 5)\<rparr>
                else None))"

text \<open>\<open>d.strftime("%Y-%m-%d")\<close>, the year written with four digits.\<close>

definition two_digits :: "int \<Rightarrow> ustr" where
  "two_digits n = [48 + n div 10 mod 10, 48 + n mod 10]"

definition strftime_ymd :: "datetime \<Rightarrow> ustr" where
  "strftime_ymd d =
     two_digits (year d div 100) @ two_digits (year d) @ [45] @ two_digits (month d) @ [45]
       @ two_digits (day d)"


section \<open>The strict parser: \<open>extract_order_data\<close>\<close>

text \<open>
  What \<open>pdfplumber\<close> hands over: a file that cannot be opened, or the pages, each with its
  extracted text (\<open>None\<close> where \<open>extract_text()\<close> returns \<open>None\<close>).
\<close>

datatype pdf = Unreadable | Pages "ustr option list"

record order_data =
  o_order_id :: "ustr option"
  o_date :: "ustr option"
  o_restaurant_name :: "ustr option"
  o_items :: "ustr list"
  o_total :: "rat option"
  o_file_name :: ustr

text \<open>\<open>Order ID:\s*(\d+)\<close>\<close>

definition order_id_rx :: rx where
  "order_id_rx = seqs [word ''Order ID:'', ws0, Grp 1 ds1]"

text \<open>\<open>Order Time:\s*(\d+\s+\w+\s+\d{4}[,\s]+\d+:\d+\s*(?:AM|PM))\<close>\<close>

definition order_time_rx :: rx where
  "order_time_rx =
     seqs [word ''Order Time:'', ws0,
       Grp 1 (seqs [ds1, ws1, Rep True 1 None (Set [ClsW]), ws1, Rep True 4 (Some 4) (Set [ClsD]),
         Rep True 1 None (Set [Ch 44, ClsS]), ds1, At (Lit 58), ds1, ws0,
         Alt (word ''AM'') (word ''PM'')])]"

text \<open>\<open>Restaurant Name:\s*([^\n]+)\<close>\<close>

definition restaurant_rx :: rx where
  "restaurant_rx = seqs [word ''Restaurant Name:'', ws0, Grp 1 (Rep True 1 None (NSet [Ch nl]))]"

text \<open>\<open>^([^<rupee>]+?)\s+(\d+)\s+<rupee>\s*([\d,]+\.?\d*)\s+<rupee>\s*([\d,]+\.?\d*)\<close>\<close>

definition item_rx :: rx where
  "item_rx =
     seqs [Bol, Grp 1 (Rep False 1 None (NSet [Ch rupee])), ws1, Grp 2 ds1, ws1,
       At (Lit rupee), ws0, Grp 3 amount_rx, ws1, At (Lit rupee), ws0, Grp 4 amount_rx]"

text \<open>\<open><rupee>\s*([\d,]+\.?\d*)\<close>\<close>

definition price_rx :: rx where
  "price_rx = seqs [At (Lit rupee), ws0, Grp 1 amount_rx]"

text \<open>
  \<open>^Total\s+<rupee>\s*([\d,]+\.?\d*)\<close>, \<open>^Total\s*:\s*<rupee>\s*([\d,]+\.?\d*)\<close> and
  \<open>^Total\s*<rupee>\s*([\d,]+\.?\d*)\<close>
\<close>

definition total_patterns :: "rx list" where
  "total_patterns =
     [seqs [Bol, word ''Total'', ws1, At (Lit rupee), ws0, Grp 1 amount_rx],
      seqs [Bol, word ''Total'', ws0, At (Lit 58), ws0, At (Lit rupee), ws0, Grp 1 amount_rx],
      seqs [Bol, word ''Total'', ws0, At (Lit rupee), ws0, Grp 1 amount_rx]]"

subsection \<open>Date\<close>

text \<open>
  The matched date string is parsed with the full month name, then with the abbreviated
  one; when both raise, the matched string itself is kept.
\<close>

definition normalize_date :: "ustr \<Rightarrow> ustr" where
  "normalize_date date_str =
     (let date_str_clean = drop_commas date_str
      in case strptime True date_str_clean of
           Some d \<Rightarrow> strftime_ymd d
         | None \<Rightarrow>
             (case strptime False date_str_clean of
                Some d \<Rightarrow> strftime_ymd d
              | None \<Rightarrow> date_str))"

definition extract_date :: "ustr \<Rightarrow> ustr option" where
  "extract_date text =
     (case re_search False False order_time_rx text of
        None \<Rightarrow> None
      | Some m \<Rightarrow> Some (normalize_date (group m 1)))"

subsection \<open>Order id and restaurant\<close>

definition extract_order_id :: "ustr \<Rightarrow> ustr option" where
  "extract_order_id text =
     (case re_search False False order_id_rx text of
        None \<Rightarrow> None
      | Some m \<Rightarrow> Some (group m 1))"

definition extract_restaurant :: "ustr \<Rightarrow> ustr option" where
  "extract_restaurant text =
     (case re_search False False restaurant_rx text of
        None \<Rightarrow> None
      | Some m \<Rightarrow> Some (strip (group m 1)))"

subsection \<open>Items\<close>

definition is_table_header :: "ustr \<Rightarrow> bool" where
  "is_table_header line =
     (py_in (u ''Item'') line \<and> py_in (u ''Quantity'') line \<and> py_in (u ''Price'') line)"

definition is_total_price_header :: "ustr \<Rightarrow> bool" where
  "is_total_price_header line =
     (py_in (u ''total price'') (lower line)
      \<and> (py_in (u ''quantity'') (lower line) \<or> py_in (u ''unit'') (lower line)))"

definition charge_keywords :: "string list" where
  "charge_keywords = [''taxes'', ''packaging'', ''delivery'', ''platform'', ''round off'']"

definition is_charge_line :: "ustr \<Rightarrow> bool" where
  "is_charge_line line = list_ex (\<lambda>keyword. py_in (u keyword) (lower line)) charge_keywords"

definition is_terms_line :: "ustr \<Rightarrow> bool" where
  "is_terms_line line = (py_in (u ''terms'') (lower line) \<or> py_in (u ''conditions'') (lower line))"

text \<open>\<open>f"{item_name} (Qty: {quantity}, <rupee>{total_price})"\<close>\<close>

definition format_item :: "rmatch_obj \<Rightarrow> ustr" where
  "format_item m =
     strip (group m 1) @ u '' (Qty: '' @ group m 2 @ u '', '' @ [rupee]
       @ drop_commas (group m 4) @ u '')''"

text \<open>
  One pass of the loop over the lines; the state is \<open>items_section\<close> and \<open>items_list\<close>.
\<close>

fun item_step :: "bool \<times> ustr list \<Rightarrow> ustr \<Rightarrow> bool \<times> ustr list" where
  "item_step (items_section, items_list) line =
     (if is_table_header line then (True, items_list)
      else if items_section then
        (if is_total_price_header line then (items_section, items_list)
         else if is_charge_line line then (False, items_list)
         else if is_terms_line line then (False, items_list)
         else if strip line \<noteq> [] then
           (case re_match False False item_rx line of
              Some m \<Rightarrow> (items_section, items_list @ [format_item m])
            | None \<Rightarrow> (items_section, items_list))
         else (items_section, items_list))
      else (items_section, items_list))"

definition table_scan :: "ustr list \<Rightarrow> bool \<times> ustr list" where
  "table_scan lines = foldl item_step (False, []) lines"

definition non_item_keywords :: "string list" where
  "non_item_keywords = [''tax'', ''delivery'', ''platform'', ''packaging'', ''total'', ''free'']"

text \<open>The fallback: lines with a rupee sign that name none of the charges.\<close>

definition fallback_item :: "ustr \<Rightarrow> ustr option" where
  "fallback_item line =
     (if py_in [rupee] line
         \<and> \<not> list_ex (\<lambda>keyword. py_in (u keyword) (lower line)) non_item_keywords
      then
        (let item_parts = split_on rupee line
         in if 2 \<le> length item_parts then
              (let item_name = strip (hd item_parts)
               in if item_name \<noteq> [] \<and> 3 < length item_name then
                    (case re_search False False price_rx line of
                       Some m \<Rightarrow> Some (item_name @ u '' ('' @ [rupee] @ group m 1 @ u '')'')
                     | None \<Rightarrow> None)
                  else None)
            else None)
      else None)"

definition extract_items :: "ustr list \<Rightarrow> ustr list" where
  "extract_items lines =
     (let items_list = snd (table_scan lines)
      in if items_list = [] then List.map_filter fallback_item lines else items_list)"

subsection \<open>Total\<close>

text \<open>
  What one pattern yields on its match: the captured amount when \<open>float\<close> accepts it and it
  is greater than 20.
\<close>

definition plausible_total :: "rmatch_obj option \<Rightarrow> rat option" where
  "plausible_total mo =
     (case mo of
        None \<Rightarrow> None
      | Some m \<Rightarrow>
          (case py_float (drop_commas (group m 1)) of
             None \<Rightarrow> None
           | Some total_value \<Rightarrow> if 20 < total_value then Some total_value else None))"

text \<open>The inner loop over the patterns, on one stripped line.\<close>

definition line_total :: "ustr \<Rightarrow> rat option" where
  "line_total line_clean =
     first_some (\<lambda>pattern. plausible_total (re_match True False pattern line_clean)) total_patterns"

text \<open>The outer loop, over the lines in the order given (the source passes them reversed).\<close>

definition scan_total :: "ustr list \<Rightarrow> rat option" where
  "scan_total lines =
     first_some (\<lambda>line. if strip line = [] then None else line_total (strip line)) lines"

text \<open>The broader search over the whole text, one pattern after the other.\<close>

definition search_total :: "ustr \<Rightarrow> rat option" where
  "search_total text =
     first_some (\<lambda>pattern. plausible_total (re_search True True pattern text)) total_patterns"

definition extract_total :: "ustr \<Rightarrow> rat option" where
  "extract_total text =
     (case scan_total (rev (split_on nl text)) of
        Some v \<Rightarrow> Some v
      | None \<Rightarrow> search_total text)"

subsection \<open>The parser\<close>

text \<open>Truth of a string or \<open>None\<close>, as \<open>if data['date']\<close> tests it.\<close>

definition truthy :: "ustr option \<Rightarrow> bool" where
  "truthy v = (case v of None \<Rightarrow> False | Some s \<Rightarrow> s \<noteq> [])"

definition parse_order_text :: "ustr \<Rightarrow> ustr \<Rightarrow> order_data option" where
  "parse_order_text fname text =
     (if text = [] then None
      else
        (let data = \<lparr>o_order_id = extract_order_id text,
                     o_date = extract_date text,
                     o_restaurant_name = extract_restaurant text,
                     o_items = extract_items (split_on nl text),
                     o_total = extract_total text,
                     o_file_name = fname\<rparr>
         in if truthy (o_date data) \<and> truthy (o_restaurant_name data)
               \<and> (case o_total data of None \<Rightarrow> False | Some v \<Rightarrow> v \<noteq> 0)
            then Some data else None))"

text \<open>
  The text is the pages' texts, each followed by a newline; adding \<open>None\<close> to a string
  raises, and every exception ends in \<open>return None\<close>.
\<close>

fun pages_text :: "ustr option list \<Rightarrow> ustr option" where
  "pages_text [] = Some []"
| "pages_text (None # ps) = None"
| "pages_text (Some t # ps) =
     (case pages_text ps of None \<Rightarrow> None | Some rest \<Rightarrow> Some (t @ [nl] @ rest))"

definition extract_order_data :: "ustr \<Rightarrow> pdf \<Rightarrow> order_data option" where
  "extract_order_data fname doc =
     (case doc of
        Unreadable \<Rightarrow> None
      | Pages ps \<Rightarrow>
          (case pages_text ps of
             None \<Rightarrow> None
           | Some text \<Rightarrow> parse_order_text fname text))"


section \<open>The sheet-oriented parser: \<open>extract_invoice_data\<close>\<close>

record invoice_data =
  i_filename :: ustr
  i_date :: ustr
  i_restaurant :: ustr
  i_amount :: ustr
  i_items :: "ustr list"

text \<open>\<open>\d{1,2}\s+(?:Jan|Feb|Mar|Apr|May|Jun|Jul|Aug|Sep|Oct|Nov|Dec)[a-z]*\s+\d{4}\<close>\<close>

definition long_date_rx :: rx where
  "long_date_rx =
     seqs [Rep True 1 (Some 2) (Set [ClsD]), ws1,
       alts (map word [''Jan'', ''Feb'', ''Mar'', ''Apr'', ''May'', ''Jun'', ''Jul'', ''Aug'', ''Sep'',
         ''Oct'', ''Nov'', ''Dec'']),
       Rep True 0 None (Set [Rng 97 122]), ws1, Rep True 4 (Some 4) (Set [ClsD])]"

text \<open>
  \<open>Order Time:\s*(\<dots>)\<close> around the pattern above, the pattern above alone, and
  \<open>(\d{1,2}[/-]\d{1,2}[/-]\d{4})\<close>
\<close>

definition date_patterns :: "rx list" where
  "date_patterns =
     [seqs [word ''Order Time:'', ws0, Grp 1 long_date_rx],
      Grp 1 long_date_rx,
      Grp 1 (seqs [Rep True 1 (Some 2) (Set [ClsD]), At (Set [Ch 47, Ch 45]),
        Rep True 1 (Some 2) (Set [ClsD]), At (Set [Ch 47, Ch 45]),
        Rep True 4 (Some 4) (Set [ClsD])])]"

text \<open>
  \<open>Restaurant Name:\s*([^\n]+)\<close>, \<open>Ordered from[:\s]+([^\n]+)\<close> and
  \<open>Delivery from[:\s]+([^\n]+)\<close>
\<close>

definition restaurant_patterns :: "rx list" where
  "restaurant_patterns =
     [seqs [word ''Restaurant Name:'', ws0, Grp 1 (Rep True 1 None (NSet [Ch nl]))],
      seqs [word ''Ordered from'', Rep True 1 None (Set [Ch 58, ClsS]),
        Grp 1 (Rep True 1 None (NSet [Ch nl]))],
      seqs [word ''Delivery from'', Rep True 1 None (Set [Ch 58, ClsS]),
        Grp 1 (Rep True 1 None (NSet [Ch nl]))]]"

text \<open>\<open>\s*\(.*?\)\s*\<close>\<close>

definition paren_rx :: rx where
  "paren_rx = seqs [ws0, At (Lit 40), Rep False 0 None Dot, At (Lit 41), ws0]"

text \<open>\<open>[\d,]+\.?\d{0,2}\<close>\<close>

definition amount2_rx :: rx where
  "amount2_rx = seqs [Rep True 1 None (Set [ClsD, Ch 44]), Rep True 0 (Some 1) (Lit 46),
     Rep True 0 (Some 2) (Set [ClsD])]"

text \<open>
  \<open>(?:^|\n)\s*Total\s+<rupee>?([\d,]+\.?\d{0,2})\<close> and \<open>Total:\s*<rupee>?([\d,]+\.?\d{0,2})\<close>
\<close>

definition amount_patterns :: "rx list" where
  "amount_patterns =
     [seqs [Alt Bol (At (Lit nl)), ws0, word ''Total'', ws1, Rep True 0 (Some 1) (Lit rupee),
        Grp 1 amount2_rx],
      seqs [word ''Total:'', ws0, Rep True 0 (Some 1) (Lit rupee), Grp 1 amount2_rx]]"

text \<open>\<open>^([A-Z][^\n\d]+?)\s+(\d+)\s+<rupee>([\d,]+)\s+<rupee>([\d,]+)\<close>\<close>

definition sheet_item_rx :: rx where
  "sheet_item_rx =
     seqs [Bol, Grp 1 (Seq (At (Set [Rng 65 90])) (Rep False 1 None (NSet [Ch nl, ClsD]))), ws1,
       Grp 2 ds1, ws1, At (Lit rupee), Grp 3 (Rep True 1 None (Set [ClsD, Ch 44])), ws1,
       At (Lit rupee), Grp 4 (Rep True 1 None (Set [ClsD, Ch 44]))]"

definition sheet_date :: "ustr \<Rightarrow> ustr" where
  "sheet_date text =
     (case first_some (\<lambda>pattern. re_search True False pattern text) date_patterns of
        None \<Rightarrow> []
      | Some m \<Rightarrow> strip (group m 1))"

text \<open>The captured name without its parenthetical parts, cut to 100 characters.\<close>

definition clean_restaurant :: "ustr \<Rightarrow> ustr" where
  "clean_restaurant captured = take 100 (re_sub False False paren_rx [] None (strip captured))"

definition sheet_restaurant :: "ustr \<Rightarrow> ustr" where
  "sheet_restaurant text =
     (case first_some (\<lambda>pattern. re_search True False pattern text) restaurant_patterns of
        None \<Rightarrow> []
      | Some m \<Rightarrow> clean_restaurant (group m 1))"

definition sheet_amount :: "ustr \<Rightarrow> ustr" where
  "sheet_amount text =
     (case first_some (\<lambda>pattern. re_search True True pattern text) amount_patterns of
        None \<Rightarrow> []
      | Some m \<Rightarrow> rupee # drop_commas (group m 1))"

definition skipped_names :: "string list" where
  "skipped_names = [''Taxes'', ''Total'', ''Item'']"

text \<open>\<open>f"{qty}x {item_name} (<rupee>{price})"\<close>, for a line that is an item.\<close>

definition sheet_item :: "ustr \<Rightarrow> ustr option" where
  "sheet_item line =
     (case re_match True False sheet_item_rx (strip line) of
        None \<Rightarrow> None
      | Some m \<Rightarrow>
          (let item_name = strip (group m 1); qty = group m 2; price = drop_commas (group m 4)
           in if 3 < length item_name \<and> item_name \<notin> set (map u skipped_names)
              then Some (qty @ u ''x '' @ item_name @ u '' ('' @ [rupee] @ price @ u '')'')
              else None))"

definition parse_invoice_text :: "ustr \<Rightarrow> ustr \<Rightarrow> invoice_data" where
  "parse_invoice_text fname text =
     \<lparr>i_filename = fname,
      i_date = sheet_date text,
      i_restaurant = sheet_restaurant text,
      i_amount = sheet_amount text,
      i_items = take 10 (List.map_filter sheet_item (split_on nl text))\<rparr>"

text \<open>
  The text is the pages' texts, with \<open>""\<close> for a page without text. Only a file that cannot
  be read ends in \<open>return None\<close>.
\<close>

definition extract_invoice_data :: "ustr \<Rightarrow> pdf \<Rightarrow> invoice_data option" where
  "extract_invoice_data fname doc =
     (case doc of
        Unreadable \<Rightarrow> None
      | Pages ps \<Rightarrow>
          Some (parse_invoice_text fname
            (concat (map (\<lambda>p. case p of None \<Rightarrow> [] | Some t \<Rightarrow> t) ps))))"

section \<open>The batch: sorting and the summary\<close>

text \<open>\<open>all_data.sort(key=lambda x: x['date'] or '')\<close>: a stable sort on the code points.\<close>

definition date_key :: "order_data \<Rightarrow> ustr" where
  "date_key x = (case o_date x of None \<Rightarrow> [] | Some d \<Rightarrow> d)"

definition sort_by_date :: "order_data list \<Rightarrow> order_data list" where
  "sort_by_date all_data = sort_key date_key all_data"





section \<open>Sample documents\<close>

text \<open>An invoice as the text extractor delivers it, and the record the strict parser makes of it.\<close>

definition sample_invoice :: ustr where
  "sample_invoice =
     u ''Order ID: 123'' @ [nl] @ u ''Order Time: 31 January 2026, 12:52 PM'' @ [nl]
     @ u ''Restaurant Name: P.F. Chang's (Sector 18)'' @ [nl]
     @ u ''Item Quantity Unit Price Total Price'' @ [nl]
     @ u ''Paneer Tikka 2 '' @ [rupee] @ u ''250 '' @ [rupee] @ u ''500'' @ [nl]
     @ u ''Delivery Charge '' @ [rupee] @ u ''30'' @ [nl]
     @ u ''Total '' @ [rupee] @ u ''530'' @ [nl]
     @ u ''Total '' @ [rupee] @ u ''10''"

definition sample_order :: order_data where
  "sample_order =
     \<lparr>o_order_id = Some (u ''123''), o_date = Some (u ''2026-01-31''),
      o_restaurant_name = Some (u ''P.F. Chang's (Sector 18)''),
      o_items = [u ''Paneer Tikka (Qty: 2, '' @ [rupee] @ u ''500)''],
      o_total = Some 530, o_file_name = u ''order.pdf''\<rparr>"

text \<open>Eleven item lines, for the sheet-oriented parser.\<close>

definition eleven_items :: ustr where
  "eleven_items =
     concat (replicate 11 (u ''Naan 1 '' @ [rupee] @ u ''9 '' @ [rupee] @ u ''9'' @ [nl]))"

text \<open>A record of the batch with a given date and total.\<close>

definition sample_row :: "ustr option \<Rightarrow> rat \<Rightarrow> order_data" where
  "sample_row d v =
     \<lparr>o_order_id = None, o_date = d, o_restaurant_name = Some (u ''Cafe''), o_items = [],
      o_total = Some v, o_file_name = u ''order.pdf''\<rparr>"

definition header_line :: ustr where
  "header_line = u ''Item Quantity Unit Price Total Price''"

text \<open>The line of an item, and three lines that start with "Total".\<close>

definition paneer_line :: ustr where
  "paneer_line = u ''Paneer Tikka 2 '' @ [rupee] @ u ''250 '' @ [rupee] @ u ''500''"



text \<open>The record the sheet-oriented parser makes of the same invoice.\<close>

definition sample_sheet_row :: invoice_data where
  "sample_sheet_row =
     \<lparr>i_filename = u ''order.pdf'', i_date = u ''31 January 2026'',
      i_restaurant = u ''P.F. Chang's'', i_amount = [rupee] @ u ''530'',
      i_items = [u ''2x Paneer Tikka ('' @ [rupee] @ u ''500)'']\<rparr>"

text \<open>An opening parenthesis with a closing one somewhere after it.\<close>

fun has_parenthetical :: "ustr \<Rightarrow> bool" where
  "has_parenthetical [] = False"
| "has_parenthetical (x # xs) = ((x = 40 \<and> 41 \<in> set xs) \<or> has_parenthetical xs)"

section \<open>Facts about the program\<close>

lemma first_some_SomeD: "first_some f xs = Some y \<Longrightarrow> \<exists>x \<in> set xs. f x = Some y"
  by (induction xs) (auto split: option.splits)

lemma plausible_total_gt: "plausible_total mo = Some v \<Longrightarrow> 20 < v"
  by (auto simp: plausible_total_def split: option.splits if_splits)

lemma line_total_gt: "line_total l = Some v \<Longrightarrow> 20 < v"
  by (auto simp: line_total_def dest!: first_some_SomeD plausible_total_gt)

lemma scan_total_gt: "scan_total ls = Some v \<Longrightarrow> 20 < v"
  by (auto simp: scan_total_def dest!: first_some_SomeD line_total_gt split: if_splits)

lemma search_total_gt: "search_total t = Some v \<Longrightarrow> 20 < v"
  by (auto simp: search_total_def dest!: first_some_SomeD plausible_total_gt)

lemma extract_total_gt: "extract_total t = Some v \<Longrightarrow> 20 < v"
  by (auto simp: extract_total_def split: option.splits dest: scan_total_gt search_total_gt)

lemma parse_order_text_SomeD:
  assumes "parse_order_text fname text = Some r"
  shows "text \<noteq> []" and "o_date r = extract_date text"
    and "o_restaurant_name r = extract_restaurant text" and "o_total r = extract_total text"
    and "truthy (o_date r)" and "truthy (o_restaurant_name r)" and "o_total r \<noteq> None"
  using assms by (auto simp: parse_order_text_def Let_def split: if_splits option.splits)

lemma extract_order_data_SomeD:
  "extract_order_data fname doc = Some r \<Longrightarrow>
     \<exists>ps text. doc = Pages ps \<and> pages_text ps = Some text \<and> parse_order_text fname text = Some r"
  by (auto simp: extract_order_data_def split: pdf.splits option.splits)

lemma sample_order_parse:
  "extract_order_data (u ''order.pdf'') (Pages [Some sample_invoice]) = Some sample_order"
  by code_simp

text \<open>
  C10: every record the strict parser returns has a total strictly greater than 20.
\<close>

theorem strict_total_above_20:
  "extract_order_data fname doc = Some r \<Longrightarrow> \<exists>v. o_total r = Some v \<and> 20 < v"
proof -
  assume "extract_order_data fname doc = Some r"
  then obtain body where p: "parse_order_text fname body = Some r"
    using extract_order_data_SomeD by blast
  then obtain v where v: "o_total r = Some v"
    using parse_order_text_SomeD(7) by blast
  with p have "extract_total body = Some v"
    using parse_order_text_SomeD(4) by metis
  then have "20 < v" by (rule extract_total_gt)
  with v show ?thesis by blast
qed

theorem strict_total_above_20_witness:
  "extract_order_data (u ''order.pdf'') (Pages [Some sample_invoice]) = Some sample_order
   \<and> (\<exists>v. o_total sample_order = Some v \<and> 20 < v)"
  using sample_order_parse strict_total_above_20 [OF sample_order_parse] by simp

lemma plain_sheet_parse:
  "extract_invoice_data (u ''order.pdf'') (Pages [Some (u ''hello'')]) =
     Some \<lparr>i_filename = u ''order.pdf'', i_date = [], i_restaurant = [], i_amount = [],
       i_items = []\<rparr>"
  by code_simp

lemma plain_strict_parts:
  "pages_text [Some (u ''hello'')] = Some (u ''hello'' @ [nl])"
  "extract_date (u ''hello'' @ [nl]) = None"
  by code_simp+

text \<open>
  C1 (as amended): the strict parser returns a record only with a date, a restaurant name and
  a total that are all present and not empty, and returns \<open>None\<close> whenever the text
  yields no date, no restaurant name or no total; the sheet-oriented parser returns a
  record for every readable document, whatever it finds.
\<close>

theorem strict_parser_gate:
  "(extract_order_data fname doc = Some r \<longrightarrow>
      truthy (o_date r) \<and> truthy (o_restaurant_name r) \<and> o_total r \<noteq> None)
   \<and> (pages_text ps = Some body
        \<and> (extract_date body = None \<or> extract_restaurant body = None \<or> extract_total body = None)
      \<longrightarrow> extract_order_data fname (Pages ps) = None)
   \<and> extract_invoice_data fname (Pages ps) \<noteq> None"
proof (intro conjI impI)
  assume a: "extract_order_data fname doc = Some r"
  then obtain body' where p: "parse_order_text fname body' = Some r"
    using extract_order_data_SomeD by blast
  show "truthy (o_date r)" using p by (rule parse_order_text_SomeD(5))
  show "truthy (o_restaurant_name r)" using p by (rule parse_order_text_SomeD(6))
  show "o_total r \<noteq> None" using p by (rule parse_order_text_SomeD(7))
next
  assume b: "pages_text ps = Some body
     \<and> (extract_date body = None \<or> extract_restaurant body = None \<or> extract_total body = None)"
  then have "parse_order_text fname body = None"
    by (auto simp: parse_order_text_def Let_def truthy_def)
  with b show "extract_order_data fname (Pages ps) = None"
    by (simp add: extract_order_data_def)
next
  show "extract_invoice_data fname (Pages ps) \<noteq> None"
    by (simp add: extract_invoice_data_def)
qed

theorem strict_parser_gate_witness:
  "extract_order_data (u ''order.pdf'') (Pages [Some sample_invoice]) = Some sample_order
   \<and> truthy (o_date sample_order) \<and> truthy (o_restaurant_name sample_order)
   \<and> o_total sample_order \<noteq> None
   \<and> pages_text [Some (u ''hello'')] = Some (u ''hello'' @ [nl])
   \<and> extract_date (u ''hello'' @ [nl]) = None
   \<and> extract_order_data (u ''order.pdf'') (Pages [Some (u ''hello'')]) = None"
  using strict_parser_gate [of "u ''order.pdf''" "Pages [Some sample_invoice]" sample_order
      "[Some (u ''hello'')]" "u ''hello'' @ [nl]"]
    sample_order_parse plain_strict_parts
  by simp

theorem sheet_parser_keeps_empty_fields:
  "extract_invoice_data (u ''order.pdf'') (Pages [Some (u ''hello'')]) =
     Some \<lparr>i_filename = u ''order.pdf'', i_date = [], i_restaurant = [], i_amount = [],
       i_items = []\<rparr>"
  by (rule plain_sheet_parse)

lemma eleven_parse:
  "extract_invoice_data (u ''order.pdf'') (Pages [Some eleven_items]) =
     Some \<lparr>i_filename = u ''order.pdf'', i_date = [], i_restaurant = [], i_amount = [],
       i_items = replicate 10 (u ''1x Naan ('' @ [rupee] @ u ''9)'')\<rparr>"
  by code_simp

text \<open>
  C9: the record of the sheet-oriented parser holds at most 10 line items.
\<close>

theorem sheet_items_at_most_10:
  "extract_invoice_data fname doc = Some r \<Longrightarrow> length (i_items r) \<le> 10"
  by (auto simp: extract_invoice_data_def parse_invoice_text_def split: pdf.splits)

theorem sheet_items_at_most_10_witness:
  "extract_invoice_data (u ''order.pdf'') (Pages [Some eleven_items]) =
     Some \<lparr>i_filename = u ''order.pdf'', i_date = [], i_restaurant = [], i_amount = [],
       i_items = replicate 10 (u ''1x Naan ('' @ [rupee] @ u ''9)'')\<rparr>
   \<and> length (replicate 10 (u ''1x Naan ('' @ [rupee] @ u ''9)'')) \<le> 10"
  using eleven_parse sheet_items_at_most_10 [OF eleven_parse] by simp






lemma date_key_Nil_iff: "date_key x = [] \<longleftrightarrow> \<not> truthy (o_date x)"
  by (simp add: date_key_def truthy_def split: option.splits)

lemma insort_key_Nil_front:
  "f x = ([] :: ustr) \<Longrightarrow> insort_key f x ys = x # ys"
  by (cases ys) simp_all

lemma insort_key_past_Nil_keys:
  "\<forall>a \<in> set as. f a = ([] :: ustr) \<Longrightarrow> f x \<noteq> [] \<Longrightarrow>
     insort_key f x (as @ bs) = as @ insort_key f x bs"
  by (induction as) simp_all

lemma sort_key_Nil_keys_first:
  "sort_key f xs =
     filter (\<lambda>x. f x = ([] :: ustr)) xs @ sort_key f (filter (\<lambda>x. f x \<noteq> []) xs)"
proof (induction xs)
  case Nil
  then show ?case by simp
next
  case (Cons x xs)
  show ?case
  proof (cases "f x = []")
    case True
    then show ?thesis using Cons by (simp add: insort_key_Nil_front)
  next
    case False
    have "insort_key f x (filter (\<lambda>x. f x = []) xs @ sort_key f (filter (\<lambda>x. f x \<noteq> []) xs))
        = filter (\<lambda>x. f x = []) xs @ insort_key f x (sort_key f (filter (\<lambda>x. f x \<noteq> []) xs))"
      using False by (intro insort_key_past_Nil_keys) simp_all
    then show ?thesis using False Cons by simp
  qed
qed

text \<open>
  C7 (as amended): sorting by date places every record whose date is absent or empty,
  in the order they had, before all records with a date; the records with a date follow
  in the order of their date strings, code point by code point.
\<close>

theorem absent_dates_sort_first:
  "sort_by_date all_data =
     filter (\<lambda>x. \<not> truthy (o_date x)) all_data
       @ sort_by_date (filter (\<lambda>x. truthy (o_date x)) all_data)
   \<and> sorted (map date_key (sort_by_date all_data))"
proof
  have "sort_by_date all_data =
      filter (\<lambda>x. date_key x = []) all_data
        @ sort_by_date (filter (\<lambda>x. date_key x \<noteq> []) all_data)"
    unfolding sort_by_date_def by (rule sort_key_Nil_keys_first)
  then show "sort_by_date all_data =
     filter (\<lambda>x. \<not> truthy (o_date x)) all_data
       @ sort_by_date (filter (\<lambda>x. truthy (o_date x)) all_data)"
    by (simp add: date_key_Nil_iff)
  show "sorted (map date_key (sort_by_date all_data))"
    by (simp add: sort_by_date_def)
qed

theorem absent_dates_sort_first_witness:
  "sort_by_date [sample_row (Some (u ''2026-01-31'')) 100, sample_row None 100]
     = [sample_row None 100, sample_row (Some (u ''2026-01-31'')) 100]"
  using absent_dates_sort_first
    [of "[sample_row (Some (u ''2026-01-31'')) 100, sample_row None 100]"]
  by (simp add: sample_row_def truthy_def sort_by_date_def u_def)

theorem unparsed_date_sorts_after_dated:
  "normalize_date (u ''31 Foo 2026, 12:52 PM'') = u ''31 Foo 2026, 12:52 PM''
   \<and> sort_by_date [sample_row (Some (u ''31 Foo 2026, 12:52 PM'')) 100,
        sample_row (Some (u ''2026-01-31'')) 100]
     = [sample_row (Some (u ''2026-01-31'')) 100,
        sample_row (Some (u ''31 Foo 2026, 12:52 PM'')) 100]"
  by code_simp










lemma two_digits_length: "length (two_digits n) = 2"
  by (simp add: two_digits_def)






lemma table_scan_snoc: "table_scan (ls @ [line]) = item_step (table_scan ls) line"
  by (simp add: table_scan_def)

lemma header_line_is_header: "is_table_header header_line"
  by code_simp

lemma trailer_keyword_line:
  assumes "k \<in> set (charge_keywords @ [''terms'', ''conditions''])"
    and "py_in (u k) (lower line)"
  shows "is_charge_line line \<or> is_terms_line line"
proof -
  from assms(1) have "k \<in> set charge_keywords \<or> k = ''terms'' \<or> k = ''conditions''"
    by auto
  then show ?thesis
  proof (elim disjE)
    assume "k \<in> set charge_keywords"
    then have "is_charge_line line"
      unfolding is_charge_line_def list_ex_iff using assms(2) by blast
    then show ?thesis ..
  next
    assume "k = ''terms''"
    then show ?thesis using assms(2) by (simp add: is_terms_line_def)
  next
    assume "k = ''conditions''"
    then show ?thesis using assms(2) by (simp add: is_terms_line_def)
  qed
qed

lemma delivery_charge_line:
  "py_in (u ''delivery'') (lower (u ''Delivery Charge '' @ [rupee] @ u ''30''))"
  "\<not> is_table_header (u ''Delivery Charge '' @ [rupee] @ u ''30'')"
  "\<not> is_total_price_header (u ''Delivery Charge '' @ [rupee] @ u ''30'')"
  by code_simp+

text \<open>
  C5 (as amended): in the item-table scan the header line "Item Quantity Unit Price Total
  Price" leaves the section active, whatever came before it, and adds no item; every line
  that contains one of the trailer keywords (taxes, packaging, delivery, platform, round
  off, terms, conditions, compared in lower case) and that the scan does not take for a
  header ends the section and adds no item.
\<close>

theorem header_keeps_trailer_ends_section:
  "table_scan (ls @ [header_line]) = (True, snd (table_scan ls))
   \<and> (k \<in> set (charge_keywords @ [''terms'', ''conditions''])
        \<and> py_in (u k) (lower line)
        \<and> \<not> is_table_header line \<and> \<not> is_total_price_header line
      \<longrightarrow> table_scan (ls @ [line]) = (False, snd (table_scan ls)))"
proof (intro conjI impI)
  obtain sec acc where s: "table_scan ls = (sec, acc)" by (cases "table_scan ls")
  show "table_scan (ls @ [header_line]) = (True, snd (table_scan ls))"
    by (simp add: table_scan_snoc s header_line_is_header)
  assume a: "k \<in> set (charge_keywords @ [''terms'', ''conditions''])
        \<and> py_in (u k) (lower line)
        \<and> \<not> is_table_header line \<and> \<not> is_total_price_header line"
  then have "is_charge_line line \<or> is_terms_line line"
    using trailer_keyword_line by blast
  with a show "table_scan (ls @ [line]) = (False, snd (table_scan ls))"
    by (cases sec) (auto simp: table_scan_snoc s)
qed

theorem header_keeps_trailer_ends_section_witness:
  "table_scan ([] @ [header_line]) = (True, [])
   \<and> table_scan ([header_line] @ [header_line]) = (True, [])
   \<and> table_scan ([header_line] @ [u ''Delivery Charge '' @ [rupee] @ u ''30'']) = (False, [])"
  using
    header_keeps_trailer_ends_section [of "[]" "''delivery''" "[]"]
    header_keeps_trailer_ends_section [of "[header_line]" "''delivery''"
      "u ''Delivery Charge '' @ [rupee] @ u ''30''"]
    delivery_charge_line
  by (simp add: charge_keywords_def table_scan_def)

theorem header_with_trailer_keyword_keeps_section:
  "py_in (u ''delivery'') (lower (u ''Item Quantity Price Delivery Charge''))
   \<and> table_scan [header_line, u ''Item Quantity Price Delivery Charge''] = (True, [])"
  by code_simp

lemma paneer_match:
  "re_match False False item_rx paneer_line =
     Some \<lparr>groups = [(4, u ''500''), (3, u ''250''), (2, u ''2''), (1, u ''Paneer Tikka'')],
       after = [], after_prev = Some 48\<rparr>"
  by code_simp

lemma paneer_line_plain:
  "\<not> is_table_header paneer_line" "\<not> is_total_price_header paneer_line"
  "\<not> is_charge_line paneer_line" "\<not> is_terms_line paneer_line" "strip paneer_line \<noteq> []"
  "fst (table_scan [header_line])" "snd (table_scan [header_line]) = []"
  by code_simp+

text \<open>
  C6 (as amended): while the section is active, every line that the item pattern
  \<open>name quantity amount amount\<close> matches, that is not taken for a header and contains no
  trailer keyword, adds one entry made of the stripped name, the quantity and the second
  amount without its commas, and leaves the section active. The line
  "Paneer Tikka 2 R250 R500" (R the rupee sign) gives "Paneer Tikka (Qty: 2, R500)".
\<close>

theorem item_line_appends_entry:
  "fst (table_scan ls) \<Longrightarrow>
   \<not> is_table_header line \<Longrightarrow> \<not> is_total_price_header line \<Longrightarrow>
   \<not> is_charge_line line \<Longrightarrow> \<not> is_terms_line line \<Longrightarrow> strip line \<noteq> [] \<Longrightarrow>
   re_match False False item_rx line = Some m \<Longrightarrow>
   table_scan (ls @ [line]) =
     (True, snd (table_scan ls)
        @ [strip (group m 1) @ u '' (Qty: '' @ group m 2 @ u '', '' @ [rupee]
             @ drop_commas (group m 4) @ u '')''])"
  by (cases "table_scan ls") (simp add: table_scan_snoc format_item_def)

theorem item_line_appends_entry_witness:
  "re_match False False item_rx paneer_line =
     Some \<lparr>groups = [(4, u ''500''), (3, u ''250''), (2, u ''2''), (1, u ''Paneer Tikka'')],
       after = [], after_prev = Some 48\<rparr>
   \<and> table_scan ([header_line] @ [paneer_line]) =
       (True, [u ''Paneer Tikka (Qty: 2, '' @ [rupee] @ u ''500)''])"
proof -
  have "table_scan ([header_line] @ [paneer_line]) =
     (True, snd (table_scan [header_line])
        @ [strip (group \<lparr>groups = [(4, u ''500''), (3, u ''250''), (2, u ''2''),
               (1, u ''Paneer Tikka'')], after = [], after_prev = Some 48\<rparr> 1)
           @ u '' (Qty: ''
           @ group \<lparr>groups = [(4, u ''500''), (3, u ''250''), (2, u ''2''),
               (1, u ''Paneer Tikka'')], after = [], after_prev = Some 48\<rparr> 2
           @ u '', '' @ [rupee]
           @ drop_commas (group \<lparr>groups = [(4, u ''500''), (3, u ''250''), (2, u ''2''),
               (1, u ''Paneer Tikka'')], after = [], after_prev = Some 48\<rparr> 4)
           @ u '')''])"
    using paneer_line_plain(6) paneer_line_plain(1-5) paneer_match
    by (rule item_line_appends_entry)
  moreover have "strip (group \<lparr>groups = [(4, u ''500''), (3, u ''250''), (2, u ''2''),
               (1, u ''Paneer Tikka'')], after = [], after_prev = Some 48\<rparr> 1)
           @ u '' (Qty: ''
           @ group \<lparr>groups = [(4, u ''500''), (3, u ''250''), (2, u ''2''),
               (1, u ''Paneer Tikka'')], after = [], after_prev = Some 48\<rparr> 2
           @ u '', '' @ [rupee]
           @ drop_commas (group \<lparr>groups = [(4, u ''500''), (3, u ''250''), (2, u ''2''),
               (1, u ''Paneer Tikka'')], after = [], after_prev = Some 48\<rparr> 4)
           @ u '')'' = u ''Paneer Tikka (Qty: 2, '' @ [rupee] @ u ''500)''"
    by code_simp
  ultimately show ?thesis
    using paneer_match paneer_line_plain(7) by simp
qed

theorem item_with_trailer_keyword_is_dropped:
  "map_option (\<lambda>m. (group m 1, group m 2, group m 4))
     (re_match False False item_rx (u ''Delivery Box 1 '' @ [rupee] @ u ''50 '' @ [rupee] @ u ''50''))
     = Some (u ''Delivery Box'', u ''1'', u ''50'')
   \<and> table_scan [header_line, u ''Delivery Box 1 '' @ [rupee] @ u ''50 '' @ [rupee] @ u ''50'']
     = (False, [])"
  by code_simp

subsection \<open>What a match leaves of the text\<close>

lemma advance_rest: "\<exists>k. rest_of (advance n (p, s, caps)) = drop k s"
proof (cases "n = 0 \<or> s = []")
  case True
  then have "rest_of (advance n (p, s, caps)) = drop 0 s" by (auto simp: rest_of_def)
  then show ?thesis ..
next
  case False
  then have "rest_of (advance n (p, s, caps)) = drop n s" by (simp add: rest_of_def)
  then show ?thesis ..
qed

lemma rmatch_suffix:
  "st' \<in> set (rmatch ic ml r st) \<Longrightarrow> \<exists>k. rest_of st' = drop k (rest_of st)"
proof (induction ic ml r st arbitrary: st' rule: rmatch.induct)
  case (1 ic ml a p s caps)
  then obtain x xs where "s = x # xs" "st' = (Some x, xs, caps)"
    by (auto split: list.splits if_splits)
  then have "rest_of st' = drop 1 (rest_of (p, s, caps))" by (simp add: rest_of_def)
  then show ?case ..
next
  case (2 ic ml greedy lo hi a p s caps)
  then obtain n where "st' = advance n (p, s, caps)" by (auto simp del: advance.simps)
  then show ?case using advance_rest [of n p s caps] by (simp add: rest_of_def del: advance.simps)
next
  case (3 ic ml p s caps)
  then have "rest_of st' = drop 0 (rest_of (p, s, caps))" by (auto split: if_splits)
  then show ?case ..
next
  case (4 ic ml a b st)
  then obtain st1 where 1: "st1 \<in> set (rmatch ic ml a st)" and 2: "st' \<in> set (rmatch ic ml b st1)"
    by auto
  from 4(1) [OF 1] obtain k1 where k1: "rest_of st1 = drop k1 (rest_of st)" ..
  from 4(2) [OF 1 2] obtain k2 where k2: "rest_of st' = drop k2 (rest_of st1)" ..
  have "rest_of st' = drop (k2 + k1) (rest_of st)" using k1 k2 by simp
  then show ?case ..
next
  case (5 ic ml a b st)
  from 5(3) have "st' \<in> set (rmatch ic ml a st) \<or> st' \<in> set (rmatch ic ml b st)"
    by simp
  then show ?case using 5(1) 5(2) by blast
next
  case (6 ic ml n r p s caps)
  then obtain st1 where 1: "st1 \<in> set (rmatch ic ml r (p, s, caps))"
    and 2: "rest_of st' = rest_of st1"
    by (auto simp: rest_of_def)
  from 6(1) [OF 1] 2 show ?case by simp
qed


lemma rmatch_shorter:
  assumes "st' \<in> set (rmatch ic ml r st)"
  shows "length (rest_of st') \<le> length (rest_of st)" and "set (rest_of st') \<subseteq> set (rest_of st)"
proof -
  from rmatch_suffix [OF assms] obtain k where "rest_of st' = drop k (rest_of st)" ..
  then show "length (rest_of st') \<le> length (rest_of st)"
    and "set (rest_of st') \<subseteq> set (rest_of st)"
    by (simp_all add: set_drop_subset)
qed

lemma rmatch_Seq_iff:
  "st' \<in> set (rmatch ic ml (Seq a b) st) \<longleftrightarrow>
     (\<exists>st1 \<in> set (rmatch ic ml a st). st' \<in> set (rmatch ic ml b st1))"
  by auto

lemma rmatch_At_iff:
  "st' \<in> set (rmatch ic ml (At a) st) \<longleftrightarrow>
     (\<exists>x xs. rest_of st = x # xs \<and> atom_ok ic a x \<and> st' = (Some x, xs, snd (snd st)))"
  by (cases st) (auto simp: rest_of_def split: list.splits)

text \<open>A match of the parenthetical pattern reads at least its opening parenthesis.\<close>

lemma paren_rx_progress:
  assumes "st' \<in> set (rmatch False False paren_rx st)"
  shows "length (rest_of st') < length (rest_of st)" and "set (rest_of st') \<subseteq> set (rest_of st)"
proof -
  from assms obtain st1 st2 where 1: "st1 \<in> set (rmatch False False ws0 st)"
    and 2: "st2 \<in> set (rmatch False False (At (Lit 40)) st1)"
    and 3: "st' \<in> set (rmatch False False
        (Seq (Rep False 0 None Dot) (Seq (At (Lit 41)) ws0)) st2)"
    unfolding paren_rx_def seqs.simps rmatch_Seq_iff by blast
  from 2 obtain x xs where x: "rest_of st1 = x # xs" "rest_of st2 = xs"
    unfolding rmatch_At_iff by (auto simp: rest_of_def)
  have "length (rest_of st') \<le> length xs" using rmatch_shorter(1) [OF 3] x by simp
  also have "\<dots> < length (rest_of st1)" using x by simp
  also have "\<dots> \<le> length (rest_of st)" using rmatch_shorter(1) [OF 1] .
  finally show "length (rest_of st') < length (rest_of st)" .
  have "set (rest_of st') \<subseteq> set xs" using rmatch_shorter(2) [OF 3] x by simp
  also have "\<dots> \<subseteq> set (rest_of st1)" using x by auto
  also have "\<dots> \<subseteq> set (rest_of st)" using rmatch_shorter(2) [OF 1] .
  finally show "set (rest_of st') \<subseteq> set (rest_of st)" .
qed

lemma match_at_SomeD:
  "match_at ic ml r p s = Some m \<Longrightarrow>
     \<exists>st' \<in> set (rmatch ic ml r (p, s, [])). rest_of st' = after m \<and> snd (snd st') = groups m"
  by (auto simp: match_at_def rest_of_def split: list.splits)

lemma paren_match_progress:
  assumes "match_at False False paren_rx p s = Some m"
  shows "length (after m) < length s" and "set (after m) \<subseteq> set s"
proof -
  from match_at_SomeD [OF assms] obtain st' where
    st: "st' \<in> set (rmatch False False paren_rx (p, s, []))" "rest_of st' = after m" by blast
  show "length (after m) < length s" using paren_rx_progress(1) [OF st(1)] st(2)
    by (simp add: rest_of_def)
  show "set (after m) \<subseteq> set s" using paren_rx_progress(2) [OF st(1)] st(2)
    by (simp add: rest_of_def)
qed


lemma rep_counts_unbounded: "set (rep_counts greedy 0 None run) = {0..run}"
  by (auto simp: rep_counts_def Let_def)

lemma rmatch_Rep_star_mem:
  "n \<le> length (takeWhile (atom_ok ic a) s) \<Longrightarrow>
     advance n (p, s, caps) \<in> set (rmatch ic ml (Rep greedy 0 None a) (p, s, caps))"
  by (simp add: rep_counts_unbounded del: advance.simps)

lemma rmatch_Rep_star_nonempty: "rmatch ic ml (Rep greedy 0 None a) st \<noteq> []"
proof (cases st)
  case (fields p s caps)
  have "advance 0 (p, s, caps) \<in> set (rmatch ic ml (Rep greedy 0 None a) (p, s, caps))"
    by (rule rmatch_Rep_star_mem) simp
  then show ?thesis using fields by auto
qed

lemma takeWhile_all: "\<forall>x \<in> set xs. P x \<Longrightarrow> takeWhile P xs = xs"
  by (induction xs) simp_all

text \<open>Where a parenthesis opens and closes on the line, the pattern matches.\<close>

lemma paren_rx_matches:
  assumes "41 \<in> set xs" and "nl \<notin> set xs"
  shows "rmatch False False paren_rx (p, 40 # xs, []) \<noteq> []"
proof -
  from assms(1) obtain n where n: "n < length xs" "xs ! n = 41"
    by (auto simp: in_set_conv_nth)
  let ?st1 = "(p, 40 # xs, []) :: mstate"
  let ?st2 = "(Some 40, xs, []) :: mstate"
  let ?st3 = "advance n ?st2"
  let ?st4 = "(Some 41, drop (Suc n) xs, []) :: mstate"
  have "advance 0 ?st1 \<in> set (rmatch False False ws0 ?st1)"
    unfolding ws0_def by (rule rmatch_Rep_star_mem) simp
  then have 1: "?st1 \<in> set (rmatch False False ws0 ?st1)" by simp
  have 2: "?st2 \<in> set (rmatch False False (At (Lit 40)) ?st1)" by simp
  have tw: "takeWhile (atom_ok False Dot) xs = xs"
    using assms(2) by (intro takeWhile_all) auto
  have "n \<le> length (takeWhile (atom_ok False Dot) xs)"
    unfolding tw using n(1) by simp
  then have 3: "?st3 \<in> set (rmatch False False (Rep False 0 None Dot) ?st2)"
    by (rule rmatch_Rep_star_mem)
  have dr: "drop n xs = 41 # drop (Suc n) xs"
    using n Cons_nth_drop_Suc [of n xs] by simp
  have r3: "?st3 = (fst ?st3, 41 # drop (Suc n) xs, [])"
  proof (cases "n = 0")
    case True
    then show ?thesis using dr by simp
  next
    case False
    then show ?thesis using dr n(1) by auto
  qed
  have 4: "?st4 \<in> set (rmatch False False (At (Lit 41)) ?st3)"
    by (subst r3) simp
  obtain st5 where 5: "st5 \<in> set (rmatch False False ws0 ?st4)"
    using rmatch_Rep_star_nonempty [of False False True "Set [ClsS]" ?st4]
    unfolding ws0_def by (meson last_in_set)
  have "st5 \<in> set (rmatch False False paren_rx ?st1)"
    unfolding paren_rx_def seqs.simps rmatch_Seq_iff
    using 1 2 3 4 5 by blast
  then show ?thesis by auto
qed

lemma paren_no_match:
  assumes "match_at False False paren_rx p (40 # xs) = None" and "nl \<notin> set xs"
  shows "41 \<notin> set xs"
proof
  assume "41 \<in> set xs"
  then have "rmatch False False paren_rx (p, 40 # xs, []) \<noteq> []"
    using assms(2) by (rule paren_rx_matches)
  then show False using assms(1) by (auto simp: match_at_def split: list.splits)
qed

lemma re_sub_paren_set:
  "set (re_sub False False paren_rx [] p s) \<subseteq> set s"
proof (induction "False" "False" paren_rx "[] :: ustr" p s rule: re_sub.induct)
  case (1 p s)
  show ?case
  proof (cases "match_at False False paren_rx p s")
    case None
    show ?thesis
    proof (cases s)
      case Nil
      then show ?thesis using None by (subst re_sub.simps) simp
    next
      case (Cons x xs)
      have "set (re_sub False False paren_rx [] (Some x) xs) \<subseteq> set xs"
        using 1(1) [OF None Cons] .
      then show ?thesis
        using None Cons by (subst re_sub.simps) auto
    qed
  next
    case (Some m)
    have lt: "length (after m) < length s" using paren_match_progress(1) [OF Some] .
    have "set (re_sub False False paren_rx [] (after_prev m) (after m)) \<subseteq> set (after m)"
      using 1(2) [OF Some lt] .
    also have "\<dots> \<subseteq> set s" using paren_match_progress(2) [OF Some] .
    finally show ?thesis
      using Some lt by (subst re_sub.simps) simp
  qed
qed

lemma re_sub_paren_clean:
  "nl \<notin> set s \<Longrightarrow> \<not> has_parenthetical (re_sub False False paren_rx [] p s)"
proof (induction "False" "False" paren_rx "[] :: ustr" p s rule: re_sub.induct)
  case (1 p s)
  show ?case
  proof (cases "match_at False False paren_rx p s")
    case None
    show ?thesis
    proof (cases s)
      case Nil
      then show ?thesis using None by (subst re_sub.simps) simp
    next
      case (Cons x xs)
      have xs: "nl \<notin> set xs" using 1(4) Cons by simp
      have ih: "\<not> has_parenthetical (re_sub False False paren_rx [] (Some x) xs)"
        using 1(1) [OF None Cons xs] .
      have "x = 40 \<longrightarrow> 41 \<notin> set (re_sub False False paren_rx [] (Some x) xs)"
      proof
        assume "x = 40"
        then have "41 \<notin> set xs" using None Cons xs paren_no_match by simp
        then show "41 \<notin> set (re_sub False False paren_rx [] (Some x) xs)"
          using re_sub_paren_set [of "Some x" xs] by blast
      qed
      then show ?thesis
        using None Cons ih by (subst re_sub.simps) simp
    qed
  next
    case (Some m)
    have lt: "length (after m) < length s" using paren_match_progress(1) [OF Some] .
    have "nl \<notin> set (after m)" using paren_match_progress(2) [OF Some] 1(4) by blast
    then have "\<not> has_parenthetical (re_sub False False paren_rx [] (after_prev m) (after m))"
      using 1(2) [OF Some lt] by simp
    then show ?thesis
      using Some lt by (subst re_sub.simps) simp
  qed
qed


lemma has_parenthetical_take:
  "has_parenthetical (take n s) \<Longrightarrow> has_parenthetical s"
proof (induction s arbitrary: n)
  case Nil
  then show ?case by simp
next
  case (Cons x xs)
  show ?case
  proof (cases n)
    case 0
    then show ?thesis using Cons.prems by simp
  next
    case (Suc k)
    then have "(x = 40 \<and> 41 \<in> set (take k xs)) \<or> has_parenthetical (take k xs)"
      using Cons.prems by simp
    then show ?thesis
      using Cons.IH [of k] by (auto dest: in_set_takeD)
  qed
qed

lemma strip_set: "set (strip s) \<subseteq> set s"
  unfolding strip_def by (auto dest!: set_dropWhileD)

lemma clean_restaurant_plain:
  assumes "nl \<notin> set captured"
  shows "\<not> has_parenthetical (clean_restaurant captured)"
proof -
  have "nl \<notin> set (strip captured)" using assms strip_set by blast
  then have "\<not> has_parenthetical (re_sub False False paren_rx [] None (strip captured))"
    by (rule re_sub_paren_clean)
  then show ?thesis
    unfolding clean_restaurant_def using has_parenthetical_take by blast
qed

lemma clean_restaurant_length: "length (clean_restaurant captured) \<le> 100"
  by (simp add: clean_restaurant_def)

lemma rep_counts_le: "k \<in> set (rep_counts greedy lo hi run) \<Longrightarrow> k \<le> run"
  by (auto simp: rep_counts_def Let_def split: option.splits if_splits)

lemma take_takeWhile: "k \<le> length (takeWhile P s) \<Longrightarrow> take k s = take k (takeWhile P s)"
proof -
  assume k: "k \<le> length (takeWhile P s)"
  have "take k s = take k (takeWhile P s @ dropWhile P s)" by simp
  also have "\<dots> = take k (takeWhile P s)" using k by (simp del: takeWhile_dropWhile_id)
  finally show ?thesis .
qed

lemma advance_eq: "advance k (p, s, caps) = (fst (advance k (p, s, caps)), drop k s, caps)"
  by (cases "k = 0 \<or> s = []") auto

text \<open>What a group around a repetition captures consists of characters the repetition accepts.\<close>

lemma rmatch_Grp_Rep:
  assumes "st' \<in> set (rmatch ic ml (Grp n (Rep greedy lo hi a)) st)"
  shows "\<exists>g. snd (snd st') = (n, g) # snd (snd st) \<and> (\<forall>x \<in> set g. atom_ok ic a x)"
proof -
  obtain p s caps where st: "st = (p, s, caps)" by (cases st)
  let ?run = "length (takeWhile (atom_ok ic a) s)"
  from assms obtain k where k: "k \<in> set (rep_counts greedy lo hi ?run)"
    and st': "st' = (fst (advance k (p, s, caps)), drop k s,
                 (n, take (length s - length (drop k s)) s) # caps)"
    unfolding st by (subst (asm) rmatch.simps, subst (asm) rmatch.simps, subst (asm) (2) advance_eq)
      (auto simp del: advance.simps)
  have kr: "k \<le> ?run" using k by (rule rep_counts_le)
  then have kl: "k \<le> length s" using length_takeWhile_le [of "atom_ok ic a" s] by linarith
  have "take (length s - length (drop k s)) s = take k s" using kl by simp
  also have "\<dots> = take k (takeWhile (atom_ok ic a) s)" using kr by (rule take_takeWhile)
  finally have g: "take (length s - length (drop k s)) s = take k (takeWhile (atom_ok ic a) s)" .
  have "\<forall>x \<in> set (take k (takeWhile (atom_ok ic a) s)). atom_ok ic a x"
    by (auto dest!: in_set_takeD set_takeWhileD)
  then show ?thesis using st st' g by simp
qed

lemma group_of_labelled_value:
  assumes "match_at ic ml (Seq a (Seq b (Grp 1 (Rep greedy lo hi c)))) p s = Some m"
  shows "\<forall>x \<in> set (group m 1). atom_ok ic c x"
proof -
  from match_at_SomeD [OF assms] obtain st' where
    st': "st' \<in> set (rmatch ic ml (Seq a (Seq b (Grp 1 (Rep greedy lo hi c)))) (p, s, []))"
    and caps: "snd (snd st') = groups m" by blast
  from st' obtain st2 where "st' \<in> set (rmatch ic ml (Grp 1 (Rep greedy lo hi c)) st2)"
    unfolding rmatch_Seq_iff by blast
  from rmatch_Grp_Rep [OF this] obtain g where
    g: "snd (snd st') = (1, g) # snd (snd st2)" "\<forall>x \<in> set g. atom_ok ic c x" by blast
  have "group m 1 = g" using g(1) caps by (simp add: group_def)
  then show ?thesis using g(2) by simp
qed

lemma search_from_SomeD:
  "search_from ic ml r p s = Some m \<Longrightarrow> \<exists>p' s'. match_at ic ml r p' s' = Some m"
  by (induction s arbitrary: p) (auto split: option.splits)

lemma restaurant_value_one_line:
  assumes "first_some (\<lambda>pattern. re_search True False pattern body) restaurant_patterns = Some m"
  shows "nl \<notin> set (group m 1)"
proof -
  from first_some_SomeD [OF assms] obtain r where
    r: "r \<in> set restaurant_patterns" and "re_search True False r body = Some m" by blast
  then obtain p' s' where m: "match_at True False r p' s' = Some m"
    unfolding re_search_def using search_from_SomeD by blast
  from r obtain a b where "r = Seq a (Seq b (Grp 1 (Rep True 1 None (NSet [Ch nl]))))"
    unfolding restaurant_patterns_def by auto
  then have "\<forall>x \<in> set (group m 1). atom_ok True (NSet [Ch nl]) x"
    using m group_of_labelled_value by blast
  then show ?thesis by auto
qed

lemma sheet_restaurant_clean:
  "length (sheet_restaurant body) \<le> 100 \<and> \<not> has_parenthetical (sheet_restaurant body)"
proof (cases "first_some (\<lambda>pattern. re_search True False pattern body) restaurant_patterns")
  case None
  then show ?thesis by (simp add: sheet_restaurant_def)
next
  case (Some m)
  have "nl \<notin> set (group m 1)" using Some by (rule restaurant_value_one_line)
  then have "\<not> has_parenthetical (clean_restaurant (group m 1))"
    by (rule clean_restaurant_plain)
  then show ?thesis
    using Some clean_restaurant_length by (simp add: sheet_restaurant_def)
qed

lemma pf_changs_clean:
  "clean_restaurant (u ''P.F. Chang's (Sector 18)'') = u ''P.F. Chang's''"
  by code_simp

lemma sample_sheet_parse:
  "extract_invoice_data (u ''order.pdf'') (Pages [Some sample_invoice]) = Some sample_sheet_row"
  by code_simp

text \<open>
  C4 (as amended): in the record of the sheet-oriented parser the restaurant name has at
  most 100 characters and holds no parenthetical, that is no opening parenthesis with a
  closing one after it; the captured value \<open>P.F. Chang's (Sector 18)\<close> becomes
  \<open>P.F. Chang's\<close>. The strict parser only strips the white space around the captured value.
\<close>

theorem sheet_restaurant_cleaned:
  "clean_restaurant (u ''P.F. Chang's (Sector 18)'') = u ''P.F. Chang's''
   \<and> (extract_invoice_data fname doc = Some r \<longrightarrow>
        length (i_restaurant r) \<le> 100 \<and> \<not> has_parenthetical (i_restaurant r))"
proof -
  have "length (i_restaurant r) \<le> 100 \<and> \<not> has_parenthetical (i_restaurant r)"
    if "extract_invoice_data fname doc = Some r"
  proof -
    from that obtain ps where
      "r = parse_invoice_text fname
             (concat (map (\<lambda>p. case p of None \<Rightarrow> [] | Some t \<Rightarrow> t) ps))"
      by (auto simp: extract_invoice_data_def split: pdf.splits)
    then show ?thesis
      using sheet_restaurant_clean by (simp add: parse_invoice_text_def)
  qed
  then show ?thesis using pf_changs_clean by blast
qed

theorem sheet_restaurant_cleaned_witness:
  "extract_invoice_data (u ''order.pdf'') (Pages [Some sample_invoice]) = Some sample_sheet_row
   \<and> i_restaurant sample_sheet_row = u ''P.F. Chang's''
   \<and> length (i_restaurant sample_sheet_row) \<le> 100
   \<and> \<not> has_parenthetical (i_restaurant sample_sheet_row)"
  using sample_sheet_parse
    sheet_restaurant_cleaned [where fname = "u ''order.pdf''"
      and doc = "Pages [Some sample_invoice]" and r = sample_sheet_row]
  by (simp add: sample_sheet_row_def)

theorem strict_parser_keeps_parenthetical:
  "extract_order_data (u ''order.pdf'') (Pages [Some sample_invoice]) = Some sample_order
   \<and> o_restaurant_name sample_order = Some (u ''P.F. Chang's (Sector 18)'')
   \<and> has_parenthetical (u ''P.F. Chang's (Sector 18)'')"
proof -
  have "has_parenthetical (u ''P.F. Chang's (Sector 18)'')" by code_simp
  then show ?thesis using sample_order_parse by (simp add: sample_order_def)
qed

end
